theory Spec2Isabelle
  imports Complex_Main
begin

section \<open>Text, character classes and the regular expressions of the fallback parser\<close>

text \<open>
  A Python \<open>str\<close> is a sequence of Unicode code points; it is modelled as a list of
  integers, one per code point (what \<open>ord\<close> gives). \<open>ustr\<close> turns a literal into such a list.
\<close>

type_synonym pystr = "int list"

definition ustr :: "string \<Rightarrow> pystr" where
  "ustr s = map of_char s"

text \<open>
  The two tables of the Unicode database that the patterns read and that change with the
  Unicode version are parameters of the model: \<open>decimal\<close> gives the value of a decimal
  digit (what \<open>\d\<close> matches and what \<open>float\<close> reads), \<open>alnum\<close> says whether a code
  point is alphanumeric (what \<open>\b\<close> looks at). \<open>ucd_ascii\<close> is their restriction to ASCII.
\<close>

record ucd =
  decimal :: "int \<Rightarrow> int option"
  alnum :: "int \<Rightarrow> bool"

definition ucd_ascii :: ucd where
  "ucd_ascii = \<lparr> decimal = (\<lambda>c. if 48 \<le> c \<and> c \<le> 57 then Some (c - 48) else None),
                 alnum = (\<lambda>c. (48 \<le> c \<and> c \<le> 57) \<or> (65 \<le> c \<and> c \<le> 90) \<or> (97 \<le> c \<and> c \<le> 122)) \<rparr>"

definition is_digit :: "ucd \<Rightarrow> int \<Rightarrow> bool" where
  "is_digit U c = (decimal U c \<noteq> None)"

text \<open>Whitespace as \<open>\s\<close> and \<open>str.strip\<close> see it (the same fixed set of code points).\<close>

definition is_space :: "int \<Rightarrow> bool" where
  "is_space c = ((9 \<le> c \<and> c \<le> 13) \<or> (28 \<le> c \<and> c \<le> 32) \<or> c = 133 \<or> c = 160 \<or> c = 5760
     \<or> (8192 \<le> c \<and> c \<le> 8202) \<or> c = 8232 \<or> c = 8233 \<or> c = 8239 \<or> c = 8287 \<or> c = 12288)"

definition is_word :: "ucd \<Rightarrow> int \<Rightarrow> bool" where
  "is_word U c = (alnum U c \<or> c = 95)"

text \<open>
  A literal of a pattern compiled with \<open>re.IGNORECASE\<close>: a lower-case ASCII letter also
  matches its upper-case form, and the letters i, k and s match the few non-ASCII code
  points whose case mapping leads to them (U+0130, U+0131, U+212A, U+017F).
\<close>

definition lit_match :: "bool \<Rightarrow> int \<Rightarrow> int \<Rightarrow> bool" where
  "lit_match ic a c = (c = a \<or> (ic \<and> 97 \<le> a \<and> a \<le> 122 \<and>
      (c + 32 = a \<or> (a = 105 \<and> (c = 304 \<or> c = 305)) \<or> (a = 107 \<and> c = 8490) \<or> (a = 115 \<and> c = 383))))"

datatype re =
    Eps
  | Lit int
  | In "int list"
  | Digit
  | Space
  | Dot
  | WordB
  | Seq re re
  | Alt re re
  | Opt re
  | Star re
  | LazyStar re
  | Grp re

text \<open>
  The state of the backtracking matcher: the code point before the current position (for
  \<open>\b\<close>), the text still to read, and the groups captured so far.
\<close>

type_synonym mstate = "int option \<times> pystr \<times> pystr list"

fun eat :: "(int \<Rightarrow> bool) \<Rightarrow> mstate \<Rightarrow> mstate list" where
  "eat P (p, [], g) = []"
| "eat P (p, c # cs, g) = (if P c then [(Some c, cs, g)] else [])"

definition at_boundary :: "ucd \<Rightarrow> int option \<Rightarrow> pystr \<Rightarrow> bool" where
  "at_boundary U p s =
     ((case p of None \<Rightarrow> False | Some c \<Rightarrow> is_word U c) \<noteq> (case s of [] \<Rightarrow> False | c # _ \<Rightarrow> is_word U c))"

text \<open>
  \<open>rm U ic r st\<close> lists the states in which a match of \<open>r\<close> begun in \<open>st\<close> can end, in
  the order in which the backtracking engine of \<open>re\<close> tries them: the left alternative
  first, one more round of a greedy repetition before leaving it, leaving a lazy
  repetition before one more round. The head of the list is the match the engine reports.
\<close>

function rm :: "ucd \<Rightarrow> bool \<Rightarrow> re \<Rightarrow> mstate \<Rightarrow> mstate list" where
  "rm U ic Eps st = [st]"
| "rm U ic (Lit a) st = eat (lit_match ic a) st"
| "rm U ic (In cs) st = eat (\<lambda>c. c \<in> set cs) st"
| "rm U ic Digit st = eat (is_digit U) st"
| "rm U ic Space st = eat is_space st"
| "rm U ic Dot st = eat (\<lambda>c. c \<noteq> 10) st"
| "rm U ic WordB (p, s, g) = (if at_boundary U p s then [(p, s, g)] else [])"
| "rm U ic (Seq a b) st = concat (map (rm U ic b) (rm U ic a st))"
| "rm U ic (Alt a b) st = rm U ic a st @ rm U ic b st"
| "rm U ic (Opt a) st = rm U ic a st @ [st]"
| "rm U ic (Star a) (p, s, g) =
     concat (map (\<lambda>(p', s', g'). if length s' < length s then rm U ic (Star a) (p', s', g') else [])
                 (rm U ic a (p, s, g))) @ [(p, s, g)]"
| "rm U ic (LazyStar a) (p, s, g) =
     (p, s, g) # concat (map (\<lambda>(p', s', g'). if length s' < length s then rm U ic (LazyStar a) (p', s', g') else [])
                 (rm U ic a (p, s, g)))"
| "rm U ic (Grp a) (p, s, g) =
     map (\<lambda>(p', s', g'). (p', s', g' @ [take (length s - length s') s])) (rm U ic a (p, s, g))"
  by pat_completeness auto
termination
  by (relation "inv_image (less_than <*lex*> less_than) (\<lambda>(U, ic, r, (p, s, g)). (size r, length s))") auto

text \<open>
  \<open>re.findall\<close>: scan from left to right; at each position take the first match, record
  its groups and go on after it; where nothing matches, move one code point on.
\<close>

function findall :: "ucd \<Rightarrow> bool \<Rightarrow> re \<Rightarrow> int option \<Rightarrow> pystr \<Rightarrow> pystr list list" where
  "findall U ic r p s =
     (case rm U ic r (p, s, []) of
        [] \<Rightarrow> (case s of [] \<Rightarrow> [] | c # cs \<Rightarrow> findall U ic r (Some c) cs)
      | (p', s', g) # _ \<Rightarrow>
          g # (if length s' < length s then findall U ic r p' s'
               else (case s of [] \<Rightarrow> [] | c # cs \<Rightarrow> findall U ic r (Some c) cs)))"
  by pat_completeness auto
termination
  by (relation "measure (\<lambda>(U, ic, r, p, s). length s)") auto

section \<open>The patterns\<close>

primrec seqs :: "re list \<Rightarrow> re" where
  "seqs [] = Eps"
| "seqs (r # rs) = Seq r (seqs rs)"

primrec alts :: "re list \<Rightarrow> re" where
  "alts [] = In []"
| "alts (r # rs) = (if rs = [] then r else Alt r (alts rs))"

definition word :: "string \<Rightarrow> re" where
  "word s = seqs (map (\<lambda>c. Lit (of_char c)) s)"

definition Plus :: "re \<Rightarrow> re" where
  "Plus r = Seq r (Star r)"

definition LazyPlus :: "re \<Rightarrow> re" where
  "LazyPlus r = Seq r (LazyStar r)"

primrec times :: "nat \<Rightarrow> re \<Rightarrow> re" where
  "times 0 r = Eps"
| "times (Suc n) r = Seq r (times n r)"

primrec upto :: "nat \<Rightarrow> re \<Rightarrow> re" where
  "upto 0 r = Eps"
| "upto (Suc n) r = Opt (Seq r (upto n r))"

text \<open>\<open>Rep m n r\<close> is the greedy \<open>r{m,n}\<close>.\<close>

definition Rep :: "nat \<Rightarrow> nat \<Rightarrow> re \<Rightarrow> re" where
  "Rep m n r = Seq (times m r) (upto (n - m) r)"

text \<open>The currency class \<open>[\$\<pounds>\<euro>]\<close> (U+0024, U+00A3, U+20AC) and the amount \<open>\d+\.\d{2}\<close>.\<close>

definition cur :: re where
  "cur = In [36, 163, 8364]"

definition num :: re where
  "num = seqs [Plus Digit, Lit 46, Rep 2 2 Digit]"

definition amount_patterns :: "re list" where
  "amount_patterns =
    [ seqs [alts [word ''total'', word ''amount'', word ''balance'', word ''due''],
            Star Space, Opt (Lit 58), Star Space, Opt cur, Star Space, Grp num],
      seqs [cur, Grp num, WordB],
      seqs [WordB, Grp num, Star Space, cur],
      seqs [alts [word ''subtotal'', word ''sub-total''], Star Space, Opt cur, Star Space, Grp num],
      seqs [WordB,
            Grp (seqs [Rep 1 3 Digit, Star (seqs [Lit 44, Rep 3 3 Digit]), Lit 46, Rep 2 2 Digit]),
            WordB] ]"

definition tax_kw :: re where
  "tax_kw = alts [word ''tax'', word ''gst'', word ''vat'', word ''hst'']"

definition tax_patterns :: "re list" where
  "tax_patterns =
    [ seqs [tax_kw, Star Space, Opt cur, Star Space, Grp num],
      seqs [tax_kw, Star Space, Opt (Lit 58), Star Space, Opt cur, Star Space, Grp num],
      seqs [cur, Grp num, Star Space, tax_kw] ]"

definition item_pattern :: re where
  "item_pattern =
     seqs [Grp (LazyPlus Dot), Plus Space, Grp (seqs [Opt cur, Star Space, num]), WordB]"

section \<open>String operations and \<open>float\<close>\<close>

definition strip :: "pystr \<Rightarrow> pystr" where
  "strip s = rev (dropWhile is_space (rev (dropWhile is_space s)))"

definition remove_char :: "int \<Rightarrow> pystr \<Rightarrow> pystr" where
  "remove_char c s = filter (\<lambda>x. x \<noteq> c) s"

fun split_nl :: "pystr \<Rightarrow> pystr list" where
  "split_nl [] = [[]]"
| "split_nl (c # cs) =
     (if c = 10 then [] # split_nl cs
      else (case split_nl cs of [] \<Rightarrow> [[c]] | l # ls \<Rightarrow> (c # l) # ls))"

fun digits_val :: "ucd \<Rightarrow> int \<Rightarrow> pystr \<Rightarrow> int" where
  "digits_val U a [] = a"
| "digits_val U a (c # cs) =
     digits_val U (10 * a + (case decimal U c of None \<Rightarrow> 0 | Some d \<Rightarrow> d)) cs"

text \<open>
  \<open>float\<close> on the strings the three call sites pass it: decimal digits around at most one
  point, after surrounding whitespace is dropped; anything else is a \<open>ValueError\<close>, the
  value \<open>None\<close>. (Signs, exponents, underscores, \<open>inf\<close> and \<open>nan\<close> cannot reach it: a
  captured group holds digits, points, commas, currency signs and whitespace only.)
  The result is the decimal the string denotes: amounts are exact rationals here, so the
  rounding of binary floating point and the overflow to infinity are not part of the model.
\<close>

definition float_py :: "ucd \<Rightarrow> pystr \<Rightarrow> rat option" where
  "float_py U s =
     (let w = strip s;
          ip = takeWhile (\<lambda>c. c \<noteq> 46) w;
          fp = drop (Suc (length ip)) w
      in if list_all (is_digit U) ip \<and> list_all (is_digit U) fp \<and> ip @ fp \<noteq> []
         then Some (of_int (digits_val U 0 ip) + of_int (digits_val U 0 fp) / 10 ^ length fp)
         else None)"

text \<open>\<open>round(x, 2)\<close>: to the nearest hundredth, a tie to the even one.\<close>

definition round2 :: "rat \<Rightarrow> rat" where
  "round2 x =
     (let y = x * 100; n = \<lfloor>y\<rfloor>; f = y - of_int n
      in of_int (if f < 1 / 2 then n else if 1 / 2 < f then n + 1 else if even n then n else n + 1) / 100)"

section \<open>The extractors\<close>

text \<open>A match of a pattern with one group is that group; of one with two groups, the pair.\<close>

definition group :: "pystr list \<Rightarrow> nat \<Rightarrow> pystr" where
  "group g k = (if k < length g then g ! k else [])"

definition amounts_of :: "ucd \<Rightarrow> pystr list list \<Rightarrow> rat list" where
  "amounts_of U matches =
     concat (map (\<lambda>m. case float_py U (remove_char 44 (group m 0)) of
                         None \<Rightarrow> []
                       | Some amount \<Rightarrow> if 1 / 100 \<le> amount \<and> amount \<le> 9999999 / 100 then [amount] else [])
                 matches)"

definition extract_amounts_from_text :: "ucd \<Rightarrow> pystr \<Rightarrow> rat list" where
  "extract_amounts_from_text U text =
     (let amounts = concat (map (\<lambda>pattern. amounts_of U (findall U True pattern None text)) amount_patterns)
      in rev (sort (remdups amounts)))"

fun first_tax :: "ucd \<Rightarrow> pystr \<Rightarrow> re list \<Rightarrow> rat" where
  "first_tax U text [] = 0"
| "first_tax U text (pattern # ps) =
     (case findall U True pattern None text of
        [] \<Rightarrow> first_tax U text ps
      | m # _ \<Rightarrow> (case float_py U (remove_char 44 (group m 0)) of
                    Some v \<Rightarrow> v
                  | None \<Rightarrow> first_tax U text ps))"

definition extract_tax_from_text :: "ucd \<Rightarrow> pystr \<Rightarrow> rat" where
  "extract_tax_from_text U text = first_tax U text tax_patterns"

record item =
  name :: pystr
  price :: rat

definition item_of :: "ucd \<Rightarrow> pystr list \<Rightarrow> item list" where
  "item_of U m =
     (let nm = strip (group m 0);
          price_str = strip (remove_char 44 (remove_char 36 (group m 1)))
      in case float_py U price_str of
           None \<Rightarrow> []
         | Some pr \<Rightarrow> if 0 < pr \<and> 1 < length nm then [\<lparr> name = nm, price = pr \<rparr>] else [])"

definition extract_items_from_text :: "ucd \<Rightarrow> pystr \<Rightarrow> item list" where
  "extract_items_from_text U text = concat (map (item_of U) (findall U False item_pattern None text))"

section \<open>Reconciliation\<close>

datatype error = IndexError

definition index :: "'a list \<Rightarrow> nat \<Rightarrow> error + 'a" where
  "index xs i = (if i < length xs then Inr (xs ! i) else Inl IndexError)"

record receipt =
  merchant :: pystr
  date :: string
  total_v :: rat
  tax :: rat
  subtotal :: rat
  items :: "item list"
  category :: pystr

text \<open>
  \<open>now\<close> is the text that \<open>datetime.now().strftime("%Y-%m-%d")\<close> yields at the call. The
  function returns \<open>Inl\<close> where the Python would raise.
\<close>

definition parse_receipt_with_fallback :: "ucd \<Rightarrow> string \<Rightarrow> pystr \<Rightarrow> error + receipt" where
  "parse_receipt_with_fallback U now text =
     (let amounts = extract_amounts_from_text U text;
          tx = extract_tax_from_text U text;
          its = extract_items_from_text U text;
          item_total = (if its \<noteq> [] then sum_list (map price its) else 0)
      in case (if amounts \<noteq> [] then index amounts 0 else Inr (item_total + tx)) of
           Inl e \<Rightarrow> Inl e
         | Inr tot \<Rightarrow>
             (let sub = (if 0 < tx then tot - tx else item_total);
                  lines = filter (\<lambda>l. l \<noteq> []) (map strip (split_nl text))
              in case (if lines \<noteq> [] then index lines 0 else Inr (ustr ''Unknown'')) of
                   Inl e \<Rightarrow> Inl e
                 | Inr m \<Rightarrow>
                     Inr \<lparr> merchant = m, date = now, total_v = round2 tot, tax = round2 tx,
                           subtotal = round2 sub, items = take 20 its, category = ustr ''Other'' \<rparr>))"

section \<open>The strings a pattern can read\<close>

text \<open>
  \<open>lang U ic r\<close> is the set of strings a match of \<open>r\<close> can consume and
  \<open>glangs U ic r\<close> the set of group lists it can capture on the way. \<open>reaches\<close> relates
  the text and groups before a match to those after it.
\<close>

inductive_set star :: "'a list set \<Rightarrow> 'a list set" for A :: "'a list set" where
  star_nil: "[] \<in> star A"
| star_step: "u \<in> A \<Longrightarrow> v \<in> star A \<Longrightarrow> u @ v \<in> star A"

primrec lang :: "ucd \<Rightarrow> bool \<Rightarrow> re \<Rightarrow> pystr set" where
  "lang U ic Eps = {[]}"
| "lang U ic (Lit a) = {[c] | c. lit_match ic a c}"
| "lang U ic (In cs) = {[c] | c. c \<in> set cs}"
| "lang U ic Digit = {[c] | c. is_digit U c}"
| "lang U ic Space = {[c] | c. is_space c}"
| "lang U ic Dot = {[c] | c. c \<noteq> 10}"
| "lang U ic WordB = {[]}"
| "lang U ic (Seq a b) = {u @ v | u v. u \<in> lang U ic a \<and> v \<in> lang U ic b}"
| "lang U ic (Alt a b) = lang U ic a \<union> lang U ic b"
| "lang U ic (Opt a) = insert [] (lang U ic a)"
| "lang U ic (Star a) = star (lang U ic a)"
| "lang U ic (LazyStar a) = star (lang U ic a)"
| "lang U ic (Grp a) = lang U ic a"

primrec glangs :: "ucd \<Rightarrow> bool \<Rightarrow> re \<Rightarrow> pystr list set" where
  "glangs U ic Eps = {[]}"
| "glangs U ic (Lit a) = {[]}"
| "glangs U ic (In cs) = {[]}"
| "glangs U ic Digit = {[]}"
| "glangs U ic Space = {[]}"
| "glangs U ic Dot = {[]}"
| "glangs U ic WordB = {[]}"
| "glangs U ic (Seq a b) = {x @ y | x y. x \<in> glangs U ic a \<and> y \<in> glangs U ic b}"
| "glangs U ic (Alt a b) = glangs U ic a \<union> glangs U ic b"
| "glangs U ic (Opt a) = insert [] (glangs U ic a)"
| "glangs U ic (Star a) = star (glangs U ic a)"
| "glangs U ic (LazyStar a) = star (glangs U ic a)"
| "glangs U ic (Grp a) = {x @ [w] | x w. x \<in> glangs U ic a \<and> w \<in> lang U ic a}"

definition reaches :: "ucd \<Rightarrow> bool \<Rightarrow> re \<Rightarrow> pystr \<Rightarrow> pystr list \<Rightarrow> pystr \<Rightarrow> pystr list \<Rightarrow> bool" where
  "reaches U ic r s g s' g' =
     (\<exists>w gs. s = w @ s' \<and> w \<in> lang U ic r \<and> g' = g @ gs \<and> gs \<in> glangs U ic r)"

text \<open>
  What the proofs ask of the table of decimal digits: no digit is whitespace, a point, a
  comma or one of the three currency signs. \<open>cents x\<close> says that \<open>x\<close> is a whole number
  of hundredths, \<open>numstr U w\<close> that \<open>w\<close> is digits, a point and two digits.
\<close>

definition wf_ucd :: "ucd \<Rightarrow> bool" where
  "wf_ucd U = (\<forall>c. is_digit U c \<longrightarrow> \<not> is_space c \<and> c \<notin> {36, 44, 46, 163, 8364})"


definition numstr :: "ucd \<Rightarrow> pystr \<Rightarrow> bool" where
  "numstr U w = (\<exists>ds d1 d2. w = ds @ [46, d1, d2] \<and> ds \<noteq> [] \<and> list_all (is_digit U) ds
                   \<and> is_digit U d1 \<and> is_digit U d2)"

section \<open>Example receipts\<close>

definition receipt_a :: pystr where
  "receipt_a = ustr ''Total: $45.67\<newline>Tax $3.00\<newline>Widget $10.00''"

definition receipt_b :: pystr where
  "receipt_b = ustr ''Pen $2.50\<newline>Book $12.00''"


text \<open>A price in pounds: \<open>Tea \<pounds>3.00\<close>.\<close>

definition receipt_d :: pystr where
  "receipt_d = ustr ''Tea '' @ [163] @ ustr ''3.00''"


text \<open>An amount before the keyword comes first, a keyword before an amount second.\<close>

definition receipt_f :: pystr where
  "receipt_f = ustr ''$2.00 tax 1.00''"

section \<open>Properties\<close>

subsection \<open>Soundness of the matcher\<close>

declare rm.simps(11,12) [simp del] findall.simps [simp del]

lemma reaches_eat:
  assumes "(p', s', g') \<in> set (eat P (p, s, g))" and "\<And>c. P c \<Longrightarrow> [c] \<in> lang U ic r"
    and "[] \<in> glangs U ic r"
  shows "reaches U ic r s g s' g'"
proof (cases s)
  case Nil
  with assms(1) show ?thesis by simp
next
  case (Cons c cs)
  with assms(1) have "P c" "s' = cs" "g' = g" by (auto split: if_splits)
  with Cons assms(2,3) have "s = [c] @ s' \<and> [c] \<in> lang U ic r \<and> g' = g @ [] \<and> [] \<in> glangs U ic r"
    by simp
  then show ?thesis unfolding reaches_def by blast
qed

lemma reaches_empty:
  "[] \<in> lang U ic r \<Longrightarrow> [] \<in> glangs U ic r \<Longrightarrow> reaches U ic r s g s g"
  unfolding reaches_def by (intro exI [of _ "[]"]) simp

lemma reaches_Seq:
  assumes "reaches U ic a s g s1 g1" and "reaches U ic b s1 g1 s' g'"
  shows "reaches U ic (Seq a b) s g s' g'"
proof -
  from assms(1) obtain w1 gs1 where
    a: "s = w1 @ s1" "w1 \<in> lang U ic a" "g1 = g @ gs1" "gs1 \<in> glangs U ic a"
    unfolding reaches_def by blast
  from assms(2) obtain w2 gs2 where
    b: "s1 = w2 @ s'" "w2 \<in> lang U ic b" "g' = g1 @ gs2" "gs2 \<in> glangs U ic b"
    unfolding reaches_def by blast
  have l: "w1 @ w2 \<in> lang U ic (Seq a b)" using a(2) b(2) by simp blast
  have q: "gs1 @ gs2 \<in> glangs U ic (Seq a b)" using a(4) b(4) by simp blast
  have "s = (w1 @ w2) @ s' \<and> g' = g @ (gs1 @ gs2)" using a(1,3) b(1,3) by simp
  with l q show ?thesis unfolding reaches_def by blast
qed

lemma reaches_mono:
  assumes "reaches U ic a s g s' g'" and "lang U ic a \<subseteq> lang U ic r" and "glangs U ic a \<subseteq> glangs U ic r"
  shows "reaches U ic r s g s' g'"
proof -
  from assms(1) obtain w gs where
    a: "s = w @ s'" "w \<in> lang U ic a" "g' = g @ gs" "gs \<in> glangs U ic a"
    unfolding reaches_def by blast
  have "s = w @ s' \<and> w \<in> lang U ic r \<and> g' = g @ gs \<and> gs \<in> glangs U ic r"
    using a assms(2,3) by blast
  then show ?thesis unfolding reaches_def by blast
qed

lemma reaches_star_step:
  assumes "reaches U ic a s g s1 g1" and "reaches U ic r s1 g1 s' g'"
    and "lang U ic r = star (lang U ic a)" and "glangs U ic r = star (glangs U ic a)"
  shows "reaches U ic r s g s' g'"
proof -
  from assms(1) obtain w1 gs1 where
    a: "s = w1 @ s1" "w1 \<in> lang U ic a" "g1 = g @ gs1" "gs1 \<in> glangs U ic a"
    unfolding reaches_def by blast
  from assms(2) obtain w2 gs2 where
    b: "s1 = w2 @ s'" "w2 \<in> lang U ic r" "g' = g1 @ gs2" "gs2 \<in> glangs U ic r"
    unfolding reaches_def by blast
  have l: "w1 @ w2 \<in> lang U ic r" using a(2) b(2) assms(3) by (simp add: star_step)
  have q: "gs1 @ gs2 \<in> glangs U ic r" using a(4) b(4) assms(4) by (simp add: star_step)
  have "s = (w1 @ w2) @ s' \<and> g' = g @ (gs1 @ gs2)" using a(1,3) b(1,3) by simp
  with l q show ?thesis unfolding reaches_def by blast
qed

lemma reaches_Grp:
  assumes "reaches U ic a s g s' g1"
  shows "reaches U ic (Grp a) s g s' (g1 @ [take (length s - length s') s])"
proof -
  from assms obtain w gs where
    a: "s = w @ s'" "w \<in> lang U ic a" "g1 = g @ gs" "gs \<in> glangs U ic a"
    unfolding reaches_def by blast
  have t: "take (length s - length s') s = w" using a(1) by simp
  have "s = w @ s' \<and> w \<in> lang U ic (Grp a) \<and> g1 @ [w] = g @ (gs @ [w])
        \<and> gs @ [w] \<in> glangs U ic (Grp a)"
    using a by auto
  then show ?thesis unfolding reaches_def t by blast
qed

lemma rm_sound:
  "(p', s', g') \<in> set (rm U ic r (p, s, g)) \<Longrightarrow> reaches U ic r s g s' g'"
proof (induction U ic r "(p, s, g)" arbitrary: p s g p' s' g' rule: rm.induct)
  case (1 U ic)
  then show ?case by (simp add: reaches_empty)
next
  case (2 U ic a)
  then show ?case by (auto intro!: reaches_eat)
next
  case (3 U ic cs)
  then show ?case by (auto intro!: reaches_eat)
next
  case (4 U ic)
  then show ?case by (auto intro!: reaches_eat)
next
  case (5 U ic)
  then show ?case by (auto intro!: reaches_eat)
next
  case (6 U ic)
  then show ?case by (auto intro!: reaches_eat)
next
  case (7 U ic p s g)
  then show ?case by (auto split: if_splits simp: reaches_empty)
next
  case (8 U ic a b)
  from "8.prems" obtain p1 s1 g1 where
    m1: "(p1, s1, g1) \<in> set (rm U ic a (p, s, g))" and m2: "(p', s', g') \<in> set (rm U ic b (p1, s1, g1))"
    by auto
  from "8.hyps"(1) [OF m1] "8.hyps"(2) [OF m1 m2] show ?case by (rule reaches_Seq)
next
  case (9 U ic a b)
  from "9.prems" have "(p', s', g') \<in> set (rm U ic a (p, s, g)) \<or> (p', s', g') \<in> set (rm U ic b (p, s, g))"
    by auto
  then show ?case
  proof
    assume "(p', s', g') \<in> set (rm U ic a (p, s, g))"
    from "9.hyps"(1) [OF this] show ?thesis by (rule reaches_mono) auto
  next
    assume "(p', s', g') \<in> set (rm U ic b (p, s, g))"
    from "9.hyps"(2) [OF this] show ?thesis by (rule reaches_mono) auto
  qed
next
  case (10 U ic a)
  from "10.prems" have "(p', s', g') \<in> set (rm U ic a (p, s, g)) \<or> (p', s', g') = (p, s, g)"
    by auto
  then show ?case
  proof
    assume "(p', s', g') \<in> set (rm U ic a (p, s, g))"
    from "10.hyps" [OF this] show ?thesis by (rule reaches_mono) auto
  next
    assume "(p', s', g') = (p, s, g)"
    then show ?thesis by (simp add: reaches_empty)
  qed
next
  case (11 U ic a p s g)
  show ?case
  proof (cases "(p', s', g') = (p, s, g)")
    case True
    then show ?thesis by (simp add: reaches_empty star_nil)
  next
    case False
    with "11.prems" obtain p1 s1 g1 where
      m1: "(p1, s1, g1) \<in> set (rm U ic a (p, s, g))" and sh: "length s1 < length s"
      and m2: "(p', s', g') \<in> set (rm U ic (Star a) (p1, s1, g1))"
      by (subst (asm) rm.simps) (auto split: if_splits)
    have "reaches U ic (Star a) s1 g1 s' g'"
      by (rule "11.hyps"(2) [OF m1 refl refl sh m2])
    with "11.hyps"(1) [OF m1] show ?thesis by (rule reaches_star_step) simp_all
  qed
next
  case (12 U ic a p s g)
  show ?case
  proof (cases "(p', s', g') = (p, s, g)")
    case True
    then show ?thesis by (simp add: reaches_empty star_nil)
  next
    case False
    with "12.prems" obtain p1 s1 g1 where
      m1: "(p1, s1, g1) \<in> set (rm U ic a (p, s, g))" and sh: "length s1 < length s"
      and m2: "(p', s', g') \<in> set (rm U ic (LazyStar a) (p1, s1, g1))"
      by (subst (asm) rm.simps) (auto split: if_splits)
    have "reaches U ic (LazyStar a) s1 g1 s' g'"
      by (rule "12.hyps"(2) [OF m1 refl refl sh m2])
    with "12.hyps"(1) [OF m1] show ?thesis by (rule reaches_star_step) simp_all
  qed
next
  case (13 U ic a p s g)
  from "13.prems" obtain g1 where
    m1: "(p', s', g1) \<in> set (rm U ic a (p, s, g))" and g': "g' = g1 @ [take (length s - length s') s]"
    by auto
  from "13.hyps" [OF m1] show ?case unfolding g' by (rule reaches_Grp)
qed

lemma findall_groups: "m \<in> set (findall U ic r p s) \<Longrightarrow> m \<in> glangs U ic r"
proof (induction U ic r p s rule: findall.induct)
  case (1 U ic r p s)
  show ?case
  proof (cases "rm U ic r (p, s, [])")
    case Nil
    show ?thesis
    proof (cases s)
      case Nil
      with \<open>rm U ic r (p, s, []) = []\<close> "1.prems" show ?thesis
        by (subst (asm) findall.simps) simp
    next
      case (Cons c cs)
      with \<open>rm U ic r (p, s, []) = []\<close> "1.prems" have "m \<in> set (findall U ic r (Some c) cs)"
        by (subst (asm) findall.simps) simp
      with "1.IH"(1) \<open>rm U ic r (p, s, []) = []\<close> Cons show ?thesis by blast
    qed
  next
    case (Cons st sts)
    obtain p' s' g where st: "st = (p', s', g)" by (cases st) auto
    have "(p', s', g) \<in> set (rm U ic r (p, s, []))" using Cons st by simp
    from rm_sound [OF this] have g: "g \<in> glangs U ic r"
      unfolding reaches_def by auto
    from "1.prems" Cons st have
      "m = g \<or> (length s' < length s \<and> m \<in> set (findall U ic r p' s'))
         \<or> (\<not> length s' < length s \<and> (\<exists>c cs. s = c # cs \<and> m \<in> set (findall U ic r (Some c) cs)))"
      by (subst (asm) findall.simps) (auto split: if_splits list.splits)
    then show ?thesis
    proof (elim disjE conjE exE)
      assume "m = g" with g show ?thesis by simp
    next
      assume "length s' < length s" "m \<in> set (findall U ic r p' s')"
      with "1.IH"(2) Cons st show ?thesis by blast
    next
      fix c cs assume "\<not> length s' < length s" "s = c # cs" "m \<in> set (findall U ic r (Some c) cs)"
      with "1.IH"(3) Cons st show ?thesis by blast
    qed
  qed
qed

subsection \<open>What the groups of the patterns hold\<close>

lemma star_digits: "w \<in> star {[c] | c. is_digit U c} \<Longrightarrow> list_all (is_digit U) w"
  by (induction rule: star.induct) auto

lemma lang_num: 
  assumes "w \<in> lang U ic num" shows "numstr U w"
proof -
  from assms obtain c ds x d1 d2 where
    w: "w = (c # ds) @ [x, d1, d2]" and c: "is_digit U c" and ds: "ds \<in> star {[c] | c. is_digit U c}"
    and x: "lit_match ic 46 x" and d: "is_digit U d1" "is_digit U d2"
    by (auto simp: num_def Plus_def Rep_def eval_nat_numeral)
  from x have "x = 46" by (simp add: lit_match_def)
  with w c d star_digits [OF ds] show ?thesis
    unfolding numstr_def by (intro exI [of _ "c # ds"] exI [of _ d1] exI [of _ d2]) simp
qed

lemma dropWhile_hd: "w \<noteq> [] \<Longrightarrow> \<not> P (hd w) \<Longrightarrow> dropWhile P w = w"
  by (cases w) auto

lemma strip_id: "w \<noteq> [] \<Longrightarrow> \<not> is_space (hd w) \<Longrightarrow> \<not> is_space (last w) \<Longrightarrow> strip w = w"
  by (simp add: strip_def dropWhile_hd hd_rev)

lemma numstr_facts:
  assumes "wf_ucd U" and "numstr U w"
  shows "strip w = w" and "remove_char 36 w = w" and "remove_char 44 w = w"
    and "\<exists>k. float_py U w = Some (of_int k / 100)"
proof -
  from assms(2) obtain ds d1 d2 where
    w: "w = ds @ [46, d1, d2]" and ne: "ds \<noteq> []" and ds: "list_all (is_digit U) ds"
    and d: "is_digit U d1" "is_digit U d2" unfolding numstr_def by blast
  from assms(1) have wf: "\<And>c. is_digit U c \<Longrightarrow> \<not> is_space c \<and> c \<noteq> 36 \<and> c \<noteq> 44 \<and> c \<noteq> 46"
    unfolding wf_ucd_def by auto
  from ne ds have "is_digit U (hd ds)" by (cases ds) auto
  then have "\<not> is_space (hd w)" using w ne wf by simp
  moreover have "\<not> is_space (last w)" using w d wf by simp
  ultimately show s: "strip w = w" using w by (intro strip_id) auto
  have dsn: "\<forall>c \<in> set ds. c \<noteq> 36 \<and> c \<noteq> 44 \<and> c \<noteq> 46" using ds wf by (auto simp: list_all_iff)
  show "remove_char 36 w = w" unfolding remove_char_def w using dsn d wf by (auto simp: filter_id_conv)
  show "remove_char 44 w = w" unfolding remove_char_def w using dsn d wf by (auto simp: filter_id_conv)
  have tw: "takeWhile (\<lambda>c. c \<noteq> 46) w = ds" unfolding w using dsn by (simp add: takeWhile_tail)
  have dr: "drop (Suc (length ds)) w = [d1, d2]" unfolding w by simp
  have "float_py U w = Some (of_int (digits_val U 0 ds) + of_int (digits_val U 0 [d1, d2]) / 10 ^ 2)"
    unfolding float_py_def s Let_def tw dr using ds d ne by simp
  also have "of_int (digits_val U 0 ds) + of_int (digits_val U 0 [d1, d2]) / (10 ^ 2 :: rat)
     = of_int (100 * digits_val U 0 ds + digits_val U 0 [d1, d2]) / 100"
    by (simp add: field_simps)
  finally show "\<exists>k. float_py U w = Some (of_int k / 100)" by blast
qed







lemma glangs_word: "glangs U ic (word s) = {[]}"
  unfolding word_def by (induction s) auto


lemma star_nils: "star {[]} = {[]}"
proof -
  have "x = []" if "x \<in> star {[]}" for x :: "'a list"
    using that by (induction rule: star.induct) auto
  then show ?thesis by (auto intro: star_nil)
qed

lemma glangs_times: "glangs U ic (times n Digit) = {[]}"
  by (induction n) auto

lemma glangs_upto: "glangs U ic (upto n Digit) = {[]}"
  by (induction n) auto

lemma glangs_Rep: "glangs U ic (Rep m n Digit) = {[]}"
  by (simp add: Rep_def glangs_times glangs_upto)

lemma glangs_num: "glangs U ic num = {[]}"
  by (simp add: num_def Plus_def glangs_Rep star_nils)




lemma append_nil_sets:
  "{x @ y | x y. x \<in> {[]} \<and> y \<in> B} = B"
  "{x @ y | x y. x \<in> A \<and> y \<in> {[]}} = A"
  by auto





lemma float_py_nil: "float_py U [] = None"
  by (simp add: float_py_def strip_def)



lemma glangs_tax_patterns:
  assumes "pattern \<in> set tax_patterns"
  shows "glangs U True pattern = {[w] | w. w \<in> lang U True num}"
proof -
  note g = glangs_word glangs_num cur_def star_nils append_nil_sets tax_kw_def
  from assms consider "pattern = tax_patterns ! 0" | "pattern = tax_patterns ! 1" | "pattern = tax_patterns ! 2"
    unfolding tax_patterns_def by auto
  then show ?thesis
  proof cases
    case 1 then show ?thesis unfolding tax_patterns_def by (simp add: g)
  next
    case 2 then show ?thesis unfolding tax_patterns_def by (simp add: g)
  next
    case 3 then show ?thesis unfolding tax_patterns_def by (simp add: g)
  qed
qed

lemma tax_match_parses:
  assumes "wf_ucd U" and "pattern \<in> set tax_patterns" and "findall U True pattern None text = m # ms"
  shows "\<exists>k. float_py U (group m 0) = Some (of_int k / 100)
             \<and> float_py U (remove_char 44 (group m 0)) = Some (of_int k / 100)"
proof -
  have "m \<in> set (findall U True pattern None text)" using assms(3) by simp
  then have "m \<in> glangs U True pattern" by (rule findall_groups)
  with glangs_tax_patterns [OF assms(2), of U] obtain w where m: "m = [w]" and "w \<in> lang U True num"
    by blast
  then have n: "numstr U w" using lang_num by blast
  from numstr_facts(3,4) [OF assms(1) n] m show ?thesis by (auto simp: group_def)
qed














subsection \<open>The worked examples\<close>

text \<open>
  Claim C1 says that \<open>receipt_a\<close> yields total 45.67, tax 3.00, subtotal 42.67 and the
  single item Widget 10.00. The three amounts are as claimed, the items are not: the item
  pattern is tried on the whole text, and the lines \<open>Total: $45.67\<close> and \<open>Tax $3.00\<close>
  are a name followed by a price as well.
\<close>

theorem receipt_a_items_not_widget_only:
  "map_sum id items (parse_receipt_with_fallback ucd_ascii ''2024-01-01'' receipt_a)
     \<noteq> Inr [\<lparr>name = ustr ''Widget'', price = 10\<rparr>]"
  by code_simp

text \<open>
  Claim C1, amended: \<open>receipt_a\<close> yields total 45.67, tax 3.00, subtotal 42.67 and the
  three items Total: 45.67, Tax 3.00 and Widget 10.00, in this order.
\<close>

theorem receipt_a_parsed:
  "parse_receipt_with_fallback ucd_ascii now receipt_a =
     Inr \<lparr> merchant = ustr ''Total: $45.67'', date = now, total_v = 4567 / 100, tax = 3,
           subtotal = 4267 / 100,
           items = [\<lparr>name = ustr ''Total:'', price = 4567 / 100\<rparr>,
                    \<lparr>name = ustr ''Tax'', price = 3\<rparr>,
                    \<lparr>name = ustr ''Widget'', price = 10\<rparr>],
           category = ustr ''Other'' \<rparr>"
  by code_simp

theorem receipt_a_parsed_witness:
  "map_sum id items (parse_receipt_with_fallback ucd_ascii ''2024-01-01'' receipt_a) =
     Inr [\<lparr>name = ustr ''Total:'', price = 4567 / 100\<rparr>,
          \<lparr>name = ustr ''Tax'', price = 3\<rparr>,
          \<lparr>name = ustr ''Widget'', price = 10\<rparr>]"
  by (simp add: receipt_a_parsed [of "''2024-01-01''"])

text \<open>
  Claim C2 says that \<open>receipt_b\<close>, which has no total keyword, yields total 14.50 and
  subtotal 14.50. The total is not 14.50: \<open>$2.50\<close> and \<open>$12.00\<close> are candidate amounts
  (a currency sign before a number is the second amount pattern), so the list of
  amounts is not empty and its largest element is taken.
\<close>

theorem receipt_b_total_not_sum:
  "map_sum id total_v (parse_receipt_with_fallback ucd_ascii ''2024-01-01'' receipt_b) \<noteq> Inr (1450 / 100)"
  by code_simp

text \<open>
  Claim C2, amended: \<open>receipt_b\<close> yields total 12.00, the largest candidate amount, and
  subtotal 14.50, the sum of the two item prices (the tax is 0).
\<close>

theorem receipt_b_parsed:
  "parse_receipt_with_fallback ucd_ascii now receipt_b =
     Inr \<lparr> merchant = ustr ''Pen $2.50'', date = now, total_v = 12, tax = 0,
           subtotal = 1450 / 100,
           items = [\<lparr>name = ustr ''Pen'', price = 250 / 100\<rparr>,
                    \<lparr>name = ustr ''Book'', price = 12\<rparr>],
           category = ustr ''Other'' \<rparr>"
  by code_simp

theorem receipt_b_parsed_witness:
  "map_sum id total_v (parse_receipt_with_fallback ucd_ascii ''2024-01-01'' receipt_b) = Inr 12
   \<and> map_sum id subtotal (parse_receipt_with_fallback ucd_ascii ''2024-01-01'' receipt_b) = Inr (1450 / 100)"
  by (simp add: receipt_b_parsed [of "''2024-01-01''"])

subsection \<open>The amount extractor\<close>

lemma amounts_of_range: "x \<in> set (amounts_of U ms) \<Longrightarrow> 1 / 100 \<le> x \<and> x \<le> 9999999 / 100"
  by (auto simp: amounts_of_def split: option.splits if_splits)

lemma desc_sort_remdups: "sorted_wrt (>) (rev (sort (remdups (xs :: rat list))))"
  by (simp add: sorted_wrt_rev strict_sorted_iff)

text \<open>
  Claim C5: for every text, every amount that \<open>extract_amounts_from_text\<close> returns lies
  in [0.01, 99999.99], and the list is strictly descending, hence without duplicates.
\<close>

theorem extract_amounts_range_desc_distinct:
  "(\<forall>x \<in> set (extract_amounts_from_text U text). 1 / 100 \<le> x \<and> x \<le> 9999999 / 100)
   \<and> sorted_wrt (>) (extract_amounts_from_text U text)
   \<and> distinct (extract_amounts_from_text U text)"
  unfolding extract_amounts_from_text_def Let_def
  by (auto simp: desc_sort_remdups dest: amounts_of_range)

theorem extract_amounts_range_desc_distinct_witness:
  "extract_amounts_from_text ucd_ascii receipt_a = [4567 / 100, 10, 3]
   \<and> list_all (\<lambda>x. 1 / 100 \<le> x \<and> x \<le> 9999999 / 100) (extract_amounts_from_text ucd_ascii receipt_a)
   \<and> sorted_wrt (>) (extract_amounts_from_text ucd_ascii receipt_a)
   \<and> distinct (extract_amounts_from_text ucd_ascii receipt_a)"
proof -
  have e: "extract_amounts_from_text ucd_ascii receipt_a = [4567 / 100, 10, 3]"
    by code_simp
  from extract_amounts_range_desc_distinct [of ucd_ascii receipt_a] show ?thesis
    by (simp add: e list_all_iff)
qed

subsection \<open>The item extractor\<close>

text \<open>
  Claim C7 says that every match of the item pattern has the currency sign stripped from
  its price and is kept exactly when the price is positive and the name longer than one
  code point. The pattern accepts \<open>$\<close>, \<open>\<pounds>\<close> and \<open>\<euro>\<close> before the price, but only \<open>$\<close>
  is removed before \<open>float\<close>: on \<open>receipt_d\<close> the pattern matches name \<open>Tea\<close> and price
  \<open>\<pounds>3.00\<close>, \<open>float\<close> fails on it, and the item is dropped.
\<close>

theorem pound_item_dropped:
  "findall ucd_ascii False item_pattern None receipt_d = [[ustr ''Tea'', [163] @ ustr ''3.00'']]
   \<and> extract_items_from_text ucd_ascii receipt_d = []"
  by code_simp

subsection \<open>Reconciliation\<close>



lemma wf_ucd_ascii: "wf_ucd ucd_ascii"
  by (auto simp: wf_ucd_def ucd_ascii_def is_digit_def is_space_def)


lemma parse_unfold:
  "parse_receipt_with_fallback U now text =
     Inr \<lparr> merchant = (case filter (\<lambda>l. l \<noteq> []) (map strip (split_nl text)) of
                          [] \<Rightarrow> ustr ''Unknown'' | l # _ \<Rightarrow> l),
           date = now,
           total_v = round2 (case extract_amounts_from_text U text of
                               [] \<Rightarrow> sum_list (map price (extract_items_from_text U text)) + extract_tax_from_text U text
                             | a # _ \<Rightarrow> a),
           tax = round2 (extract_tax_from_text U text),
           subtotal = round2 (if 0 < extract_tax_from_text U text
                              then (case extract_amounts_from_text U text of
                                      [] \<Rightarrow> sum_list (map price (extract_items_from_text U text)) + extract_tax_from_text U text
                                    | a # _ \<Rightarrow> a) - extract_tax_from_text U text
                              else sum_list (map price (extract_items_from_text U text))),
           items = take 20 (extract_items_from_text U text),
           category = ustr ''Other'' \<rparr>"
proof -
  let ?ls = "filter (\<lambda>l. l \<noteq> []) (map strip (split_nl text))"
  let ?am = "extract_amounts_from_text U text"
  let ?its = "extract_items_from_text U text"
  have i: "(if ?its \<noteq> [] then sum_list (map price ?its) else 0) = sum_list (map price ?its)"
    by simp
  have a: "(if ?am \<noteq> [] then index ?am 0 else Inr x) = Inr (case ?am of [] \<Rightarrow> x | a # _ \<Rightarrow> a)" for x
    by (cases ?am) (simp_all add: index_def)
  have l: "(if ?ls \<noteq> [] then index ?ls 0 else Inr y) = Inr (case ?ls of [] \<Rightarrow> y | a # _ \<Rightarrow> a)" for y
    by (cases ?ls) (simp_all add: index_def)
  show ?thesis
    unfolding parse_receipt_with_fallback_def Let_def i a l by simp
qed
















lemma first_tax_spec:
  assumes "wf_ucd U" and "set ps \<subseteq> set tax_patterns"
  shows "(case filter (\<lambda>ms. ms \<noteq> []) (map (\<lambda>pattern. findall U True pattern None text) ps) of
            [] \<Rightarrow> first_tax U text ps = 0
          | ms # _ \<Rightarrow> float_py U (group (hd ms) 0) = Some (first_tax U text ps))"
  using assms(2)
proof (induction ps)
  case Nil
  show ?case by simp
next
  case (Cons p ps)
  show ?case
  proof (cases "findall U True p None text")
    case Nil
    then have e: "first_tax U text (p # ps) = first_tax U text ps" by simp
    from Cons.IH Cons.prems have
      "case filter (\<lambda>ms. ms \<noteq> []) (map (\<lambda>pattern. findall U True pattern None text) ps) of
            [] \<Rightarrow> first_tax U text ps = 0
          | ms # _ \<Rightarrow> float_py U (group (hd ms) 0) = Some (first_tax U text ps)" by simp
    with Nil show ?thesis by (simp add: e cong: list.case_cong)
  next
    case (Cons m ms)
    from tax_match_parses [OF assms(1) _ Cons] \<open>set (p # ps) \<subseteq> set tax_patterns\<close>
    obtain k where "float_py U (group m 0) = Some (of_int k / 100)"
      "float_py U (remove_char 44 (group m 0)) = Some (of_int k / 100)" by auto
    with Cons show ?thesis by simp
  qed
qed

subsection \<open>The tax extractor\<close>

text \<open>
  Claim C6: the tax is the number read from the first match of the first pattern of
  \<open>tax_patterns\<close> that matches anywhere in the text, and 0 when none matches; the two
  patterns with the keyword before the amount come first, the one with the amount before
  the keyword last.
\<close>

theorem extract_tax_first_match_by_priority:
  assumes "wf_ucd U"
  shows "(\<exists>a b. tax_patterns = [seqs (tax_kw # a), seqs (tax_kw # b), seqs [cur, Grp num, Star Space, tax_kw]])
       \<and> (case filter (\<lambda>ms. ms \<noteq> []) (map (\<lambda>pattern. findall U True pattern None text) tax_patterns) of
            [] \<Rightarrow> extract_tax_from_text U text = 0
          | ms # _ \<Rightarrow> float_py U (group (hd ms) 0) = Some (extract_tax_from_text U text))"
proof
  show "\<exists>a b. tax_patterns = [seqs (tax_kw # a), seqs (tax_kw # b), seqs [cur, Grp num, Star Space, tax_kw]]"
    unfolding tax_patterns_def by blast
  show "case filter (\<lambda>ms. ms \<noteq> []) (map (\<lambda>pattern. findall U True pattern None text) tax_patterns) of
            [] \<Rightarrow> extract_tax_from_text U text = 0
          | ms # _ \<Rightarrow> float_py U (group (hd ms) 0) = Some (extract_tax_from_text U text)"
    unfolding extract_tax_from_text_def by (rule first_tax_spec [OF assms]) simp
qed

lemma receipt_f_matches:
  "map (\<lambda>pattern. findall ucd_ascii True pattern None receipt_f) tax_patterns
     = [[[ustr ''1.00'']], [[ustr ''1.00'']], [[ustr ''2.00'']]]"
  by code_simp

lemma float_1_00: "float_py ucd_ascii (ustr ''1.00'') = Some 1"
  by code_simp

theorem extract_tax_first_match_by_priority_witness:
  "extract_tax_from_text ucd_ascii receipt_f = 1
   \<and> map (\<lambda>pattern. findall ucd_ascii True pattern None receipt_f) tax_patterns
     = [[[ustr ''1.00'']], [[ustr ''1.00'']], [[ustr ''2.00'']]]"
  using extract_tax_first_match_by_priority [OF wf_ucd_ascii, of receipt_f]
  by (simp add: receipt_f_matches group_def float_1_00)

lemma first_tax_none:
  "\<forall>pattern \<in> set ps. findall U True pattern None text = [] \<Longrightarrow> first_tax U text ps = 0"
  by (induction ps) auto

lemma round2_0: "round2 0 = 0"
  by (simp add: round2_def)

text \<open>
  Claim C8: for every text the parser returns a record (never \<open>Inl\<close>; a string that
  \<open>float\<close> rejects is skipped inside the extractors) with category Other and at most
  20 items; the merchant is Unknown when no line has a non-blank character, the tax is 0
  when no tax pattern matches, and total, subtotal and items are 0, 0 and empty when the
  extractors find nothing.
\<close>

theorem parse_always_returns_record:
  "\<exists>r. parse_receipt_with_fallback U now text = Inr r \<and> category r = ustr ''Other''
     \<and> date r = now \<and> length (items r) \<le> 20
     \<and> ((\<forall>l \<in> set (split_nl text). strip l = []) \<longrightarrow> merchant r = ustr ''Unknown'')
     \<and> ((\<forall>pattern \<in> set tax_patterns. findall U True pattern None text = []) \<longrightarrow> tax r = 0)
     \<and> (extract_amounts_from_text U text = [] \<and> extract_items_from_text U text = []
          \<and> extract_tax_from_text U text = 0 \<longrightarrow> total_v r = 0 \<and> subtotal r = 0 \<and> items r = [])"
proof -
  have m: "filter (\<lambda>l. l \<noteq> []) (map strip (split_nl text)) = []"
    if "\<forall>l \<in> set (split_nl text). strip l = []"
    using that by (auto simp: filter_empty_conv)
  show ?thesis
    by (auto simp: parse_unfold m extract_tax_from_text_def first_tax_none round2_0)
qed

lemma parse_empty:
  "parse_receipt_with_fallback ucd_ascii ''2024-01-01'' [] =
     Inr \<lparr> merchant = ustr ''Unknown'', date = ''2024-01-01'', total_v = 0, tax = 0, subtotal = 0,
           items = [], category = ustr ''Other'' \<rparr>"
  by code_simp

theorem parse_always_returns_record_witness:
  "parse_receipt_with_fallback ucd_ascii ''2024-01-01'' [] =
     Inr \<lparr> merchant = ustr ''Unknown'', date = ''2024-01-01'', total_v = 0, tax = 0, subtotal = 0,
           items = [], category = ustr ''Other'' \<rparr>
   \<and> list_all (\<lambda>l. strip l = []) (split_nl [])
   \<and> list_all (\<lambda>pattern. findall ucd_ascii True pattern None [] = []) tax_patterns"
proof -
  have "list_all (\<lambda>pattern. findall ucd_ascii True pattern None [] = []) tax_patterns" by code_simp
  moreover have "list_all (\<lambda>l. strip l = []) (split_nl [])" by (simp add: strip_def)
  ultimately show ?thesis
    using parse_always_returns_record [of ucd_ascii "''2024-01-01''" "[]"] by (simp add: parse_empty)
qed




end
